theory Spec2Isabelle
  imports Main
begin

section \<open>The launcher \<^verbatim>\<open>runner/bin/run.js\<close>\<close>

text \<open>
  The launcher is a Node.js script: it reads one command-line flag and a handful of
  environment variables, picks a Python interpreter, starts it as a child process and
  then relays signals and the child's exit status. Everything the script does to the
  outside world is recorded as an \<^emph>\<open>effect\<close>; a run of the script is the list of its
  effects in program order.
\<close>

subsection \<open>Effects\<close>

type_synonym env = "string \<Rightarrow> string option"

record spawn_request =
  command :: string
  arguments :: "string list"
  stdio :: string
  child_env :: env
  cwd :: string

datatype signal = SIGINT | SIGTERM

datatype js_error = SyntaxError | TypeError

datatype effect =
    ConsoleLog string
  | ConsoleError string
  | SpawnSync string "string list"
  | Spawn spawn_request
  | ChildKill signal
  | ProcessExit int
  | Uncaught js_error

subsection \<open>Supervising the child (lines 124--125)\<close>

text \<open>
  \<^verbatim>\<open>["SIGINT", "SIGTERM"].forEach(sig => process.on(sig, () => { try { child.kill(sig); } catch {} }));\<close>
  \<^verbatim>\<open>child.on("exit", code => process.exit(code ?? 0));\<close>

  After the spawn the script is an event loop with three listeners. An event is a signal
  delivered to the launcher, or the child's \<^verbatim>\<open>exit\<close> event, whose first argument is the
  exit code, or \<^verbatim>\<open>null\<close> (here \<open>None\<close>) when a signal ended the child.
\<close>

datatype event = Received signal | ChildExit "int option"

definition nullish :: "'a option \<Rightarrow> 'a \<Rightarrow> 'a" where
  "nullish v d = (case v of None \<Rightarrow> d | Some x \<Rightarrow> x)"

definition on_signal :: "signal \<Rightarrow> effect list" where
  "on_signal sig = [ChildKill sig]"

definition on_exit :: "int option \<Rightarrow> effect list" where
  "on_exit code = [ProcessExit (nullish code 0)]"

text \<open>\<open>process.exit\<close> ends the launcher: events after the child's exit are never handled.\<close>

fun supervise :: "event list \<Rightarrow> effect list" where
  "supervise [] = []"
| "supervise (Received sig # evs) = on_signal sig @ supervise evs"
| "supervise (ChildExit code # evs) = on_exit code"

section \<open>Strings, paths and the filesystem\<close>

text \<open>
  Strings are byte strings; the characters the script itself inspects are ASCII.
  A value that may be \<^verbatim>\<open>undefined\<close> or \<^verbatim>\<open>null\<close> is an option, \<open>None\<close> standing for both
  where the script does not tell them apart. \<open>truthy_str\<close> is JavaScript's truthiness of
  such a string: \<^verbatim>\<open>undefined\<close>, \<^verbatim>\<open>null\<close> and the empty string are falsy.
\<close>

definition truthy_str :: "string option \<Rightarrow> bool" where
  "truthy_str v = (case v of None \<Rightarrow> False | Some s \<Rightarrow> s \<noteq> [])"

text \<open>\<^verbatim>\<open>a || b\<close> on such values.\<close>

definition or_else :: "string option \<Rightarrow> string option \<Rightarrow> string option" where
  "or_else a b = (if truthy_str a then a else b)"

text \<open>
  \<^verbatim>\<open>String.prototype.trim\<close> removes white space and line terminators at both ends (here
  the ASCII ones).
\<close>

definition js_space :: "char \<Rightarrow> bool" where
  "js_space c = (c \<in> set [CHR 0x09, CHR 0x0A, CHR 0x0B, CHR 0x0C, CHR 0x0D, CHR 0x20])"

definition trim :: "string \<Rightarrow> string" where
  "trim s = rev (dropWhile js_space (rev (dropWhile js_space s)))"

definition str_or :: "string option \<Rightarrow> string \<Rightarrow> string" where
  "str_or v d = (case or_else v None of None \<Rightarrow> d | Some s \<Rightarrow> s)"

subsection \<open>\<^verbatim>\<open>path.join\<close> (POSIX)\<close>

text \<open>
  \<^verbatim>\<open>path.join\<close> glues its non-empty arguments with \<^verbatim>\<open>/\<close> and normalises the result:
  empty and \<^verbatim>\<open>.\<close> segments are dropped, a \<^verbatim>\<open>..\<close> segment removes the segment before it
  (at the start of a relative path it is kept, at the root it is dropped).
\<close>

fun split_slash :: "string \<Rightarrow> string \<Rightarrow> string list" where
  "split_slash seg [] = [seg]"
| "split_slash seg (c # cs) =
     (if c = CHR ''/'' then seg # split_slash [] cs else split_slash (seg @ [c]) cs)"

text \<open>The segments kept so far are held last first.\<close>

fun normalize_segments :: "bool \<Rightarrow> string list \<Rightarrow> string list \<Rightarrow> string list" where
  "normalize_segments allowAboveRoot kept [] = rev kept"
| "normalize_segments allowAboveRoot kept (s # ss) =
     (if s = [] \<or> s = ''.'' then normalize_segments allowAboveRoot kept ss
      else if s = ''..'' then
        (case kept of
           [] \<Rightarrow> normalize_segments allowAboveRoot (if allowAboveRoot then [''..''] else []) ss
         | k # ks \<Rightarrow>
             if k = ''..'' then
               normalize_segments allowAboveRoot (if allowAboveRoot then ''..'' # kept else kept) ss
             else normalize_segments allowAboveRoot ks ss)
      else normalize_segments allowAboveRoot (s # kept) ss)"

fun intercalate :: "string \<Rightarrow> string list \<Rightarrow> string" where
  "intercalate sep [] = []"
| "intercalate sep [s] = s"
| "intercalate sep (s # t # ss) = s @ sep @ intercalate sep (t # ss)"

definition normalizeString :: "string \<Rightarrow> bool \<Rightarrow> string" where
  "normalizeString p allowAboveRoot =
     intercalate ''/'' (normalize_segments allowAboveRoot [] (split_slash [] p))"

definition path_normalize :: "string \<Rightarrow> string" where
  "path_normalize p =
     (if p = [] then ''.''
      else
        let isAbsolute = (hd p = CHR ''/'');
            trailingSeparator = (last p = CHR ''/'');
            q = normalizeString p (\<not> isAbsolute)
        in if q = [] then (if isAbsolute then ''/'' else if trailingSeparator then ''./'' else ''.'')
           else (if isAbsolute then ''/'' else []) @ q @ (if trailingSeparator then ''/'' else []))"

definition path_join :: "string list \<Rightarrow> string" where
  "path_join args =
     (let parts = filter (\<lambda>a. a \<noteq> []) args
      in if parts = [] then ''.'' else path_normalize (intercalate ''/'' parts))"

text \<open>
  \<^verbatim>\<open>path.resolve(__dirname, "..", "..")\<close>: \<^verbatim>\<open>__dirname\<close> is the absolute directory of the
  script, so the resolution stops there, and the result has no trailing separator.
\<close>

definition path_resolve_up2 :: "string \<Rightarrow> string" where
  "path_resolve_up2 dir = ''/'' @ normalizeString (dir @ ''/../../'') False"

subsection \<open>The filesystem as the launcher sees it\<close>

text \<open>
  The launcher only asks whether a path exists and what \<^verbatim>\<open>stat\<close> says about it. The
  filesystem is the answer of \<^verbatim>\<open>stat\<close> for every path (links followed); \<open>None\<close> when the
  call fails, as for a missing file. The answer carries the file type and the execute
  permission; the script reads the type only.
\<close>

datatype file_type = RegularFile | Directory | OtherFile

record stats =
  ftype :: file_type
  executable :: bool

type_synonym filesystem = "string \<Rightarrow> stats option"

definition existsSync :: "filesystem \<Rightarrow> string \<Rightarrow> bool" where
  "existsSync fs p = (fs p \<noteq> None)"

definition isFile :: "stats \<Rightarrow> bool" where
  "isFile st = (ftype st = RegularFile)"

text \<open>
  \<^verbatim>\<open>function isExec(p) { try { return p && fs.existsSync(p) && fs.statSync(p).isFile(); } catch { return false; } }\<close>

  The result is used as a condition only, so the model returns its truthiness.
  \<^verbatim>\<open>statSync\<close> throws where \<^verbatim>\<open>stat\<close> fails; the \<^verbatim>\<open>catch\<close> turns that into \<^verbatim>\<open>false\<close>.
\<close>

definition isExec :: "filesystem \<Rightarrow> string option \<Rightarrow> bool" where
  "isExec fs p =
     (case p of
        None \<Rightarrow> False
      | Some s \<Rightarrow> s \<noteq> [] \<and> existsSync fs s \<and> (case fs s of None \<Rightarrow> False | Some st \<Rightarrow> isFile st))"

section \<open>JavaScript values\<close>

subsection \<open>Numbers\<close>

text \<open>
  The script never computes with a number: it reads one (from JSON text, from a string,
  from the literal \<^verbatim>\<open>7001\<close>), tests its truthiness and prints it. A finite number is
  therefore kept as the exact decimal \<open>Dec m e\<close>, standing for \<open>m \<times> 10\<^sup>e\<close>. This is exact
  for every decimal a double represents without rounding, in particular for every integer
  below \<open>2\<^sup>5\<^sup>3\<close>; rounding, overflow and underflow of doubles are outside the model.
\<close>

datatype number = NaN | PosInf | NegInf | Dec int int

definition is_digit :: "char \<Rightarrow> bool" where
  "is_digit c = (48 \<le> (of_char c :: nat) \<and> (of_char c :: nat) \<le> 57)"

definition hex_val :: "char \<Rightarrow> nat option" where
  "hex_val c =
     (let n = (of_char c :: nat)
      in if 48 \<le> n \<and> n \<le> 57 then Some (n - 48)
         else if 97 \<le> n \<and> n \<le> 102 then Some (n - 87)
         else if 65 \<le> n \<and> n \<le> 70 then Some (n - 55)
         else None)"

text \<open>The value of a non-empty string of digits of the given radix.\<close>

definition digits_val :: "nat \<Rightarrow> string \<Rightarrow> nat option" where
  "digits_val radix ds =
     (if ds = [] then None
      else foldl (\<lambda>acc c. case (acc, hex_val c) of
                          (Some n, Some d) \<Rightarrow> if d < radix then Some (radix * n + d) else None
                        | _ \<Rightarrow> None) (Some 0) ds)"

definition digit_char :: "nat \<Rightarrow> char" where
  "digit_char d = ''0123456789'' ! d"

fun digits_of :: "nat \<Rightarrow> string" where
  "digits_of n = (if n < 10 then [digit_char n] else digits_of (n div 10) @ [digit_char (n mod 10)])"

declare digits_of.simps [simp del]

definition strip_zeros :: "string \<Rightarrow> string" where
  "strip_zeros ds = rev (dropWhile (\<lambda>c. c = CHR ''0'') (rev ds))"

text \<open>
  \<^verbatim>\<open>Number::toString\<close>: with \<open>k\<close> significant digits and the decimal point after the
  \<open>n\<close>-th of them, plain notation for \<open>-6 < n \<le> 21\<close> and exponent notation otherwise.
\<close>

definition NumberToString :: "number \<Rightarrow> string" where
  "NumberToString x =
     (case x of
        NaN \<Rightarrow> ''NaN''
      | PosInf \<Rightarrow> ''Infinity''
      | NegInf \<Rightarrow> ''-Infinity''
      | Dec m e \<Rightarrow>
          if m = 0 then ''0''
          else
            let all = digits_of (nat \<bar>m\<bar>);
                ds = strip_zeros all;
                k = int (length ds);
                n = int (length all) + e;
                body =
                  (if k \<le> n \<and> n \<le> 21 then ds @ replicate (nat (n - k)) (CHR ''0'')
                   else if 0 < n \<and> n \<le> 21 then take (nat n) ds @ ''.'' @ drop (nat n) ds
                   else if - 6 < n \<and> n \<le> 0 then ''0.'' @ replicate (nat (- n)) (CHR ''0'') @ ds
                   else (if k = 1 then ds else hd ds # ''.'' @ tl ds)
                        @ ''e'' @ (if n - 1 < 0 then ''-'' else ''+'') @ digits_of (nat \<bar>n - 1\<bar>))
            in (if m < 0 then ''-'' else []) @ body)"

text \<open>
  \<^verbatim>\<open>StringToNumber\<close>: the trimmed string is empty (zero), a \<^verbatim>\<open>0x\<close>, \<^verbatim>\<open>0o\<close> or \<^verbatim>\<open>0b\<close> integer, or
  an optionally signed decimal with optional fraction and exponent, or \<^verbatim>\<open>Infinity\<close>;
  every other string is \<^verbatim>\<open>NaN\<close>.
\<close>

definition span_digits :: "string \<Rightarrow> string \<times> string" where
  "span_digits s = (takeWhile is_digit s, dropWhile is_digit s)"

definition exponent_part :: "string \<Rightarrow> int option" where
  "exponent_part s =
     (case s of
        [] \<Rightarrow> Some 0
      | c # r \<Rightarrow>
          if c = CHR ''e'' \<or> c = CHR ''E'' then
            (case r of
               [] \<Rightarrow> None
             | g # t \<Rightarrow>
                 (case digits_val 10 (if g = CHR ''-'' \<or> g = CHR ''+'' then t else r) of
                    None \<Rightarrow> None
                  | Some v \<Rightarrow> Some (if g = CHR ''-'' then - int v else int v)))
          else None)"

text \<open>Digits, then optionally a point and more digits: both runs and the rest of the text.\<close>

definition decimal_digits :: "string \<Rightarrow> string \<times> string \<times> string" where
  "decimal_digits s =
     (case span_digits s of
        (ip, r1) \<Rightarrow>
          (case r1 of
             [] \<Rightarrow> (ip, [], r1)
           | c # r \<Rightarrow>
               if c = CHR ''.'' then (case span_digits r of (fp, r2) \<Rightarrow> (ip, fp, r2))
               else (ip, [], r1)))"

definition unsigned_decimal :: "string \<Rightarrow> number" where
  "unsigned_decimal s =
     (if s = ''Infinity'' then PosInf
      else
        (case decimal_digits s of
           (ip, fp, r2) \<Rightarrow>
             (case digits_val 10 (ip @ fp) of
                None \<Rightarrow> NaN
              | Some v \<Rightarrow>
                  (case exponent_part r2 of
                     None \<Rightarrow> NaN
                   | Some ex \<Rightarrow> Dec (int v) (ex - int (length fp))))))"

definition radix_literal :: "string \<Rightarrow> number option" where
  "radix_literal s =
     (case s of
        z # x # ds \<Rightarrow>
          if z = CHR ''0'' then
            (let radix = (if x = CHR ''x'' \<or> x = CHR ''X'' then 16
                          else if x = CHR ''o'' \<or> x = CHR ''O'' then 8
                          else if x = CHR ''b'' \<or> x = CHR ''B'' then 2 else 0)
             in case digits_val radix ds of None \<Rightarrow> None | Some v \<Rightarrow> Some (Dec (int v) 0))
          else None
      | _ \<Rightarrow> None)"

definition negate :: "number \<Rightarrow> number" where
  "negate x = (case x of NaN \<Rightarrow> NaN | PosInf \<Rightarrow> NegInf | NegInf \<Rightarrow> PosInf | Dec m e \<Rightarrow> Dec (- m) e)"

definition StringToNumber :: "string \<Rightarrow> number" where
  "StringToNumber s =
     (let t = trim s
      in if t = [] then Dec 0 0
         else case radix_literal t of
                Some x \<Rightarrow> x
              | None \<Rightarrow>
                  if hd t = CHR ''-'' then negate (unsigned_decimal (tl t))
                  else if hd t = CHR ''+'' then unsigned_decimal (tl t)
                  else unsigned_decimal t)"

subsection \<open>Values and coercions\<close>

text \<open>
  The values \<^verbatim>\<open>JSON.parse\<close> can return. An object keeps its members in source order; a
  repeated key reads as its last occurrence. \<^verbatim>\<open>undefined\<close> is \<open>None\<close> of \<open>json option\<close>.
\<close>

datatype json =
    JNull
  | JBool bool
  | JNum number
  | JStr string
  | JArr "json list"
  | JObj "(string \<times> json) list"

definition ToBoolean :: "json option \<Rightarrow> bool" where
  "ToBoolean v =
     (case v of
        None \<Rightarrow> False
      | Some JNull \<Rightarrow> False
      | Some (JBool b) \<Rightarrow> b
      | Some (JNum x) \<Rightarrow> (case x of NaN \<Rightarrow> False | Dec m e \<Rightarrow> m \<noteq> 0 | _ \<Rightarrow> True)
      | Some (JStr s) \<Rightarrow> s \<noteq> []
      | Some (JArr xs) \<Rightarrow> True
      | Some (JObj kvs) \<Rightarrow> True)"

text \<open>\<^verbatim>\<open>a || b\<close> and \<^verbatim>\<open>a ?? b\<close>.\<close>

definition js_or :: "json option \<Rightarrow> json option \<Rightarrow> json option" where
  "js_or a b = (if ToBoolean a then a else b)"

definition coalesce :: "json option \<Rightarrow> json option \<Rightarrow> json option" where
  "coalesce a b = (case a of None \<Rightarrow> b | Some JNull \<Rightarrow> b | Some v \<Rightarrow> a)"

fun collect :: "('e + 'a) list \<Rightarrow> 'e + 'a list" where
  "collect [] = Inr []"
| "collect (Inl e # rs) = Inl e"
| "collect (Inr x # rs) = (case collect rs of Inl e \<Rightarrow> Inl e | Inr xs \<Rightarrow> Inr (x # xs))"

text \<open>
  \<^verbatim>\<open>ToString\<close>. An array is its elements joined by commas, \<^verbatim>\<open>null\<close> elements as empty
  strings. A plain object is \<^verbatim>\<open>[object Object]\<close>, unless it has a member named
  \<^verbatim>\<open>toString\<close>: a JSON value is not callable, the inherited \<^verbatim>\<open>valueOf\<close> returns the object
  itself, and the conversion throws a \<^verbatim>\<open>TypeError\<close>.
\<close>

fun ToString :: "json \<Rightarrow> js_error + string" where
  "ToString JNull = Inr ''null''"
| "ToString (JBool b) = Inr (if b then ''true'' else ''false'')"
| "ToString (JNum x) = Inr (NumberToString x)"
| "ToString (JStr s) = Inr s"
| "ToString (JArr xs) =
     (case collect (map (\<lambda>x. if x = JNull then Inr [] else ToString x) xs) of
        Inl e \<Rightarrow> Inl e
      | Inr ss \<Rightarrow> Inr (intercalate '','' ss))"
| "ToString (JObj kvs) =
     (if ''toString'' \<in> set (map fst kvs) then Inl TypeError else Inr ''[object Object]'')"

text \<open>\<^verbatim>\<open>String(v)\<close> and \<^verbatim>\<open>Number(v)\<close> for a value that may be \<^verbatim>\<open>undefined\<close>.\<close>

definition String_of :: "json option \<Rightarrow> js_error + string" where
  "String_of v = (case v of None \<Rightarrow> Inr ''undefined'' | Some x \<Rightarrow> ToString x)"

definition Number_of :: "json option \<Rightarrow> js_error + number" where
  "Number_of v =
     (case v of
        None \<Rightarrow> Inr NaN
      | Some JNull \<Rightarrow> Inr (Dec 0 0)
      | Some (JBool b) \<Rightarrow> Inr (Dec (if b then 1 else 0) 0)
      | Some (JNum x) \<Rightarrow> Inr x
      | Some (JStr s) \<Rightarrow> Inr (StringToNumber s)
      | Some x \<Rightarrow> (case ToString x of Inl e \<Rightarrow> Inl e | Inr s \<Rightarrow> Inr (StringToNumber s)))"

text \<open>
  Reading a property \<^verbatim>\<open>v.key\<close>, for the keys the script reads (none of them is defined on
  a prototype): a \<^verbatim>\<open>TypeError\<close> on \<^verbatim>\<open>null\<close>, the member of an object, \<^verbatim>\<open>undefined\<close> otherwise.
\<close>

definition member :: "(string \<times> json) list \<Rightarrow> string \<Rightarrow> json option" where
  "member kvs key = map_of (rev kvs) key"

definition get_prop :: "json \<Rightarrow> string \<Rightarrow> js_error + json option" where
  "get_prop v key =
     (case v of
        JNull \<Rightarrow> Inl TypeError
      | JObj kvs \<Rightarrow> Inr (member kvs key)
      | _ \<Rightarrow> Inr None)"

text \<open>
  \<^verbatim>\<open>toLowerCase\<close>, on the letters A to Z. The script only compares the result with
  \<^verbatim>\<open>true\<close>, and no character outside ASCII lower-cases to one of its letters.
\<close>

definition toLowerCase :: "string \<Rightarrow> string" where
  "toLowerCase s =
     map (\<lambda>c. if 65 \<le> (of_char c :: nat) \<and> (of_char c :: nat) \<le> 90
               then char_of ((of_char c :: nat) + 32) else c) s"

subsection \<open>\<^verbatim>\<open>JSON.parse\<close>\<close>

text \<open>
  A recursive-descent reader of the JSON grammar. Each call on a nested value spends one
  unit of fuel, and \<open>JSON_parse\<close> starts with twice the length of the text and two more:
  lemma \<open>JSON_parse_fuel\<close> below shows that no amount of fuel reads more. A \<^verbatim>\<open>\u\<close> escape
  is stored as the UTF-8 bytes of its code unit.
\<close>

definition json_space :: "char \<Rightarrow> bool" where
  "json_space c = (c \<in> set [CHR 0x20, CHR 0x09, CHR 0x0A, CHR 0x0D])"

definition skip_ws :: "string \<Rightarrow> string" where
  "skip_ws s = dropWhile json_space s"

definition utf8 :: "nat \<Rightarrow> string" where
  "utf8 u =
     (if u < 128 then [char_of u]
      else if u < 2048 then [char_of (192 + u div 64), char_of (128 + u mod 64)]
      else [char_of (224 + u div 4096), char_of (128 + (u div 64) mod 64), char_of (128 + u mod 64)])"

definition escape_char :: "char \<Rightarrow> string option" where
  "escape_char c =
     (if c = CHR 0x22 \<or> c = CHR 0x5C \<or> c = CHR ''/'' then Some [c]
      else if c = CHR ''b'' then Some [CHR 0x08]
      else if c = CHR ''f'' then Some [CHR 0x0C]
      else if c = CHR ''n'' then Some [CHR 0x0A]
      else if c = CHR ''r'' then Some [CHR 0x0D]
      else if c = CHR ''t'' then Some [CHR 0x09]
      else None)"

text \<open>The text after an opening quote: the string's value and the text after the closing quote.\<close>

fun parse_string :: "string \<Rightarrow> string \<Rightarrow> (string \<times> string) option" where
  "parse_string acc [] = None"
| "parse_string acc (c # cs) =
     (if c = CHR 0x22 then Some (acc, cs)
      else if c = CHR 0x5C then
        (case cs of
           [] \<Rightarrow> None
         | e # r \<Rightarrow>
             if e = CHR ''u'' then
               (case (if length r < 4 then None else digits_val 16 (take 4 r)) of
                  None \<Rightarrow> None
                | Some u \<Rightarrow> parse_string (acc @ utf8 u) (drop 4 r))
             else
               (case escape_char e of
                  None \<Rightarrow> None
                | Some s \<Rightarrow> parse_string (acc @ s) r))
      else if (of_char c :: nat) < 32 then None
      else parse_string (acc @ [c]) cs)"

definition dec_val :: "string \<Rightarrow> int" where
  "dec_val ds = (case digits_val 10 ds of None \<Rightarrow> 0 | Some v \<Rightarrow> int v)"

text \<open>An optional fraction: its digits (at least one after the point) and the rest of the text.\<close>

definition json_frac :: "string \<Rightarrow> (string \<times> string) option" where
  "json_frac s =
     (case s of
        [] \<Rightarrow> Some ([], s)
      | c # r \<Rightarrow>
          if c = CHR ''.'' then
            (case span_digits r of (fp, r') \<Rightarrow> if fp = [] then None else Some (fp, r'))
          else Some ([], s))"

text \<open>An optional exponent: its value (at least one digit after the sign) and the rest.\<close>

definition json_exp :: "string \<Rightarrow> (int \<times> string) option" where
  "json_exp s =
     (case s of
        [] \<Rightarrow> Some (0, s)
      | c # r \<Rightarrow>
          if c = CHR ''e'' \<or> c = CHR ''E'' then
            (case r of
               [] \<Rightarrow> None
             | g # t \<Rightarrow>
                 (case span_digits (if g = CHR ''-'' \<or> g = CHR ''+'' then t else r) of
                    (ep, r') \<Rightarrow>
                      if ep = [] then None
                      else Some (if g = CHR ''-'' then - dec_val ep else dec_val ep, r')))
          else Some (0, s))"

text \<open>
  \<^verbatim>\<open>-? int frac? exp?\<close>, where \<^verbatim>\<open>int\<close> is \<^verbatim>\<open>0\<close> or starts with a digit other than \<^verbatim>\<open>0\<close>.
\<close>

definition parse_number :: "string \<Rightarrow> (number \<times> string) option" where
  "parse_number cs =
     (case (case cs of [] \<Rightarrow> (False, cs) | c # r \<Rightarrow> if c = CHR ''-'' then (True, r) else (False, cs)) of
        (neg, r0) \<Rightarrow>
     (case span_digits r0 of
        (ip, r1) \<Rightarrow>
          if ip = [] \<or> (1 < length ip \<and> hd ip = CHR ''0'') then None
          else
     (case json_frac r1 of
        None \<Rightarrow> None
      | Some (fp, r2) \<Rightarrow>
     (case json_exp r2 of
        None \<Rightarrow> None
      | Some (ex, r3) \<Rightarrow>
          Some (Dec ((if neg then - 1 else 1) * dec_val (ip @ fp)) (ex - int (length fp)), r3)))))"

fun parse_value :: "nat \<Rightarrow> string \<Rightarrow> (json \<times> string) option"
  and parse_elements :: "nat \<Rightarrow> json list \<Rightarrow> string \<Rightarrow> (json \<times> string) option"
  and parse_members :: "nat \<Rightarrow> (string \<times> json) list \<Rightarrow> string \<Rightarrow> (json \<times> string) option"
where
  "parse_value 0 cs = None"
| "parse_value (Suc n) cs =
     (case cs of
        [] \<Rightarrow> None
      | c # r \<Rightarrow>
          if c = CHR ''{'' then
            (if skip_ws r \<noteq> [] \<and> hd (skip_ws r) = CHR ''}'' then Some (JObj [], tl (skip_ws r))
             else parse_members n [] (skip_ws r))
          else if c = CHR ''['' then
            (if skip_ws r \<noteq> [] \<and> hd (skip_ws r) = CHR '']'' then Some (JArr [], tl (skip_ws r))
             else parse_elements n [] (skip_ws r))
          else if c = CHR 0x22 then
            (case parse_string [] r of None \<Rightarrow> None | Some (s, r') \<Rightarrow> Some (JStr s, r'))
          else if take 4 cs = ''true'' then Some (JBool True, drop 4 cs)
          else if take 5 cs = ''false'' then Some (JBool False, drop 5 cs)
          else if take 4 cs = ''null'' then Some (JNull, drop 4 cs)
          else (case parse_number cs of None \<Rightarrow> None | Some (x, r') \<Rightarrow> Some (JNum x, r')))"
| "parse_elements 0 acc cs = None"
| "parse_elements (Suc n) acc cs =
     (case parse_value n cs of
        None \<Rightarrow> None
      | Some (v, r) \<Rightarrow>
          (case skip_ws r of
             [] \<Rightarrow> None
           | c # r' \<Rightarrow>
               if c = CHR '','' then parse_elements n (acc @ [v]) (skip_ws r')
               else if c = CHR '']'' then Some (JArr (acc @ [v]), r')
               else None))"
| "parse_members 0 acc cs = None"
| "parse_members (Suc n) acc cs =
     (case cs of
        [] \<Rightarrow> None
      | q # r \<Rightarrow>
          if q = CHR 0x22 then
            (case parse_string [] r of
               None \<Rightarrow> None
             | Some (k, r1) \<Rightarrow>
                 (case skip_ws r1 of
                    [] \<Rightarrow> None
                  | c # r2 \<Rightarrow>
                      if c = CHR '':'' then
                        (case parse_value n (skip_ws r2) of
                           None \<Rightarrow> None
                         | Some (v, r3) \<Rightarrow>
                             (case skip_ws r3 of
                                [] \<Rightarrow> None
                              | d # r4 \<Rightarrow>
                                  if d = CHR '','' then parse_members n (acc @ [(k, v)]) (skip_ws r4)
                                  else if d = CHR ''}'' then Some (JObj (acc @ [(k, v)]), r4)
                                  else None))
                      else None))
          else None)"

declare parse_value.simps [simp del] parse_elements.simps [simp del] parse_members.simps [simp del]

definition JSON_parse :: "string \<Rightarrow> js_error + json" where
  "JSON_parse s =
     (case parse_value (2 * length s + 2) (skip_ws s) of
        None \<Rightarrow> Inl SyntaxError
      | Some (v, r) \<Rightarrow> if skip_ws r = [] then Inr v else Inl SyntaxError)"

section \<open>Resolving the interpreter\<close>

subsection \<open>\<^verbatim>\<open>resolvePython\<close> (lines 27--65)\<close>




text \<open>\<^verbatim>\<open>venv ? path.join(venv, "bin", name) : null\<close>\<close>

definition venv_python :: "env \<Rightarrow> string \<Rightarrow> string option" where
  "venv_python env name =
     (case env ''VIRTUAL_ENV'' of
        None \<Rightarrow> None
      | Some venv \<Rightarrow> if venv = [] then None else Some (path_join [venv, ''bin'', name]))"


subsection \<open>The resolution the script runs (lines 91--104)\<close>

text \<open>
  \<^verbatim>\<open>let PY_BIN = process.env.PYTHON_BIN || null;\<close>
  \<^verbatim>\<open>if (!PY_BIN) { ... tries = [venv ? path.join(venv, "bin", "python") : null, ...].filter(Boolean);\<close>
  \<^verbatim>\<open>                PY_BIN = tries.find(isExec) || null; }\<close>
\<close>

definition tries :: "env \<Rightarrow> string option list" where
  "tries env =
     filter truthy_str
       [venv_python env ''python'',
        venv_python env ''python3'',
        Some ''/opt/homebrew/bin/python3'',
        Some ''/usr/local/bin/python3'',
        Some ''/usr/bin/python3'']"

definition PY_BIN :: "env \<Rightarrow> filesystem \<Rightarrow> string option" where
  "PY_BIN env fs =
     (let py = or_else (env ''PYTHON_BIN'') None
      in if \<not> truthy_str py
         then or_else (case List.find (isExec fs) (tries env) of None \<Rightarrow> None | Some p \<Rightarrow> p) None
         else py)"

section \<open>The script from top to bottom\<close>

subsection \<open>\<^verbatim>\<open>parseConfigArg\<close> (lines 11--20)\<close>

fun indexOf :: "string list \<Rightarrow> string \<Rightarrow> nat option" where
  "indexOf [] x = None"
| "indexOf (y # ys) x = (if y = x then Some 0 else map_option Suc (indexOf ys x))"

text \<open>
  \<^verbatim>\<open>const i = argv.indexOf("--config");\<close>
  \<^verbatim>\<open>if (i !== -1 && argv[i + 1]) { try { return JSON.parse(argv[i + 1]); } catch (e) { console.error(...); process.exit(1); } }\<close>
  \<^verbatim>\<open>return {};\<close>

  The function returns the configuration, or the effects with which it ends the process.
  The diagnostic line is followed by the exception's message, which is not modelled.
\<close>

definition parseConfigArg :: "string list \<Rightarrow> effect list + json" where
  "parseConfigArg args =
     (case indexOf args ''--config'' of
        None \<Rightarrow> Inr (JObj [])
      | Some i \<Rightarrow>
          (case (if i + 1 < length args then Some (args ! (i + 1)) else None) of
             None \<Rightarrow> Inr (JObj [])
           | Some a \<Rightarrow>
               if a = [] then Inr (JObj [])
               else
                 (case JSON_parse a of
                    Inl e \<Rightarrow> Inl [ConsoleError ''[mcp-service-registry] Invalid --config JSON:'', ProcessExit 1]
                  | Inr v \<Rightarrow> Inr v)))"

subsection \<open>Defaults and overrides (lines 70--76)\<close>

definition env_value :: "env \<Rightarrow> string \<Rightarrow> json option" where
  "env_value env k = map_option JStr (env k)"

text \<open>\<^verbatim>\<open>const host = cfg.host || process.env.SERVICE_REGISTRY_HOST || "127.0.0.1";\<close>\<close>

definition host_of :: "json \<Rightarrow> env \<Rightarrow> js_error + json option" where
  "host_of cfg env =
     (case get_prop cfg ''host'' of
        Inl e \<Rightarrow> Inl e
      | Inr h \<Rightarrow> Inr (js_or (js_or h (env_value env ''SERVICE_REGISTRY_HOST'')) (Some (JStr ''127.0.0.1''))))"

text \<open>\<^verbatim>\<open>const port = Number(cfg.port || process.env.SERVICE_REGISTRY_PORT || 7001);\<close>\<close>

definition port_of :: "json \<Rightarrow> env \<Rightarrow> js_error + number" where
  "port_of cfg env =
     (case get_prop cfg ''port'' of
        Inl e \<Rightarrow> Inl e
      | Inr p \<Rightarrow>
          Number_of (js_or (js_or p (env_value env ''SERVICE_REGISTRY_PORT'')) (Some (JNum (Dec 7001 0)))))"

text \<open>\<^verbatim>\<open>const debug = Boolean(cfg.debug ?? (process.env.SERVICE_REGISTRY_DEBUG || "").toLowerCase() === "true");\<close>\<close>

definition debug_of :: "json \<Rightarrow> env \<Rightarrow> js_error + bool" where
  "debug_of cfg env =
     (case get_prop cfg ''debug'' of
        Inl e \<Rightarrow> Inl e
      | Inr d \<Rightarrow>
          Inr (ToBoolean
                (coalesce d
                  (Some (JBool (toLowerCase (str_or (env ''SERVICE_REGISTRY_DEBUG'') []) = ''true''))))))"

text \<open>
  \<^verbatim>\<open>if (cfg.perplexityApiKey) process.env.PERPLEXITY_API_KEY = cfg.perplexityApiKey;\<close>

  An assignment to \<^verbatim>\<open>process.env\<close> stores the value converted to a string.
\<close>

definition passthrough :: "json \<Rightarrow> string \<Rightarrow> string \<Rightarrow> env \<Rightarrow> js_error + env" where
  "passthrough cfg key var env =
     (case get_prop cfg key of
        Inl e \<Rightarrow> Inl e
      | Inr v \<Rightarrow>
          if ToBoolean v then
            (case String_of v of Inl e \<Rightarrow> Inl e | Inr s \<Rightarrow> Inr (env(var \<mapsto> s)))
          else Inr env)"

subsection \<open>The child's environment (lines 82--88)\<close>

definition child_environment :: "env \<Rightarrow> string \<Rightarrow> string \<Rightarrow> string \<Rightarrow> string \<Rightarrow> env" where
  "child_environment env host_s port_s debug_s repoRoot =
     env(''SERVICE_REGISTRY_HOST'' \<mapsto> host_s,
         ''SERVICE_REGISTRY_PORT'' \<mapsto> port_s,
         ''SERVICE_REGISTRY_DEBUG'' \<mapsto> debug_s,
         ''PYTHONPATH'' \<mapsto>
            intercalate '':'' (filter (\<lambda>s. s \<noteq> []) [repoRoot, str_or (env ''PYTHONPATH'') []]))"

subsection \<open>The whole script\<close>

text \<open>
  What the script reads: its arguments, its environment, the filesystem and the directory
  of the script file (an absolute path).
\<close>

record world =
  process_argv :: "string list"
  process_env :: env
  disk :: filesystem
  script_dirname :: string

definition not_found :: "effect list" where
  "not_found =
     [ConsoleError ''ERROR: Python interpreter not found.'',
      ConsoleError ''Quick fixes:'',
      ConsoleError ''  1) Install Homebrew Python:   brew install python'',
      ConsoleError ''  2) Or set an explicit path:   export PYTHON_BIN=/opt/homebrew/bin/python3'',
      ProcessExit 127]"

definition start_child :: "string \<Rightarrow> string \<Rightarrow> string \<Rightarrow> env \<Rightarrow> string \<Rightarrow> effect list" where
  "start_child py host_s port_s cenv repoRoot =
     [ConsoleLog (''[mcp-service-registry] Using Python: '' @ py),
      ConsoleLog (''[mcp-service-registry] Starting ServiceRegistry at http://'' @ host_s @ '':'' @ port_s @ ''/mcp''),
      Spawn \<lparr>command = py, arguments = [''-m'', ''registry.service_registry_server''],
             stdio = ''inherit'', child_env = cenv, cwd = repoRoot\<rparr>]"

text \<open>
  Lines 70--122, with the configuration in hand. An exception nobody catches ends the
  process (Node prints it and exits with status 1); it is recorded as \<open>Uncaught\<close>.
\<close>

definition launch :: "json \<Rightarrow> env \<Rightarrow> filesystem \<Rightarrow> string \<Rightarrow> effect list" where
  "launch cfg env fs dir =
     (case host_of cfg env of
        Inl e \<Rightarrow> [Uncaught e]
      | Inr host \<Rightarrow>
     (case port_of cfg env of
        Inl e \<Rightarrow> [Uncaught e]
      | Inr port \<Rightarrow>
     (case debug_of cfg env of
        Inl e \<Rightarrow> [Uncaught e]
      | Inr debug \<Rightarrow>
     (case passthrough cfg ''perplexityApiKey'' ''PERPLEXITY_API_KEY'' env of
        Inl e \<Rightarrow> [Uncaught e]
      | Inr env1 \<Rightarrow>
     (case passthrough cfg ''perplexityModel'' ''PERPLEXITY_MODEL'' env1 of
        Inl e \<Rightarrow> [Uncaught e]
      | Inr env2 \<Rightarrow>
     (case String_of host of
        Inl e \<Rightarrow> [Uncaught e]
      | Inr host_s \<Rightarrow>
          let repoRoot = path_resolve_up2 dir;
              port_s = NumberToString port;
              debug_s = (if debug then ''true'' else ''false'');
              cenv = child_environment env2 host_s port_s debug_s repoRoot
          in (case PY_BIN env2 fs of
                None \<Rightarrow> not_found
              | Some py \<Rightarrow> start_child py host_s port_s cenv repoRoot)))))))"

text \<open>The script up to and including the spawn.\<close>

definition launcher :: "world \<Rightarrow> effect list" where
  "launcher w =
     (case parseConfigArg (process_argv w) of
        Inl effs \<Rightarrow> effs
      | Inr cfg \<Rightarrow> launch cfg (process_env w) (disk w) (script_dirname w))"

fun is_Spawn :: "effect \<Rightarrow> bool" where
  "is_Spawn (Spawn req) = True"
| "is_Spawn other = False"

text \<open>A run of the program: the script, and the event loop if a child was spawned.\<close>

definition run :: "world \<Rightarrow> event list \<Rightarrow> effect list" where
  "run w evs = (if list_ex is_Spawn (launcher w) then launcher w @ supervise evs else launcher w)"

section \<open>Vocabulary of the specification\<close>

text \<open>
  The resolution search as the specification words it: the candidates in their rank
  order, and the first of them that passes a validity check.
\<close>

definition search_order :: "env \<Rightarrow> string option list" where
  "search_order env =
     [env ''PYTHON_BIN'',
      venv_python env ''python'',
      venv_python env ''python3'',
      Some ''/opt/homebrew/bin/python3'',
      Some ''/usr/local/bin/python3'',
      Some ''/usr/bin/python3'']"

fun first_valid :: "(string option \<Rightarrow> bool) \<Rightarrow> string option list \<Rightarrow> string option" where
  "first_valid ok [] = None"
| "first_valid ok (c # cs) = (if ok c then c else first_valid ok cs)"

text \<open>The specification's validity: the path exists and is an executable regular file.\<close>

definition executable_file :: "filesystem \<Rightarrow> string option \<Rightarrow> bool" where
  "executable_file fs p =
     (case p of
        None \<Rightarrow> False
      | Some s \<Rightarrow>
          (case fs s of None \<Rightarrow> False | Some st \<Rightarrow> ftype st = RegularFile \<and> executable st))"



subsection \<open>Example inputs\<close>

definition python_file :: stats where
  "python_file = \<lparr>ftype = RegularFile, executable = True\<rparr>"

definition directory :: stats where
  "directory = \<lparr>ftype = Directory, executable = True\<rparr>"

text \<open>A world whose script lives in \<^verbatim>\<open>/srv/app/runner/bin\<close>, as \<^verbatim>\<open>node run.js extra_args\<close>.\<close>

definition example_world ::
  "string list \<Rightarrow> (string \<times> string) list \<Rightarrow> (string \<times> stats) list \<Rightarrow> world" where
  "example_world extra_args vars files =
     \<lparr>process_argv = [''node'', ''/srv/app/runner/bin/run.js''] @ extra_args,
      process_env = map_of vars,
      disk = map_of files,
      script_dirname = ''/srv/app/runner/bin''\<rparr>"

section \<open>Evaluation\<close>

text \<open>Fuel written as a numeral.\<close>

lemmas parse_value_numeral =
  parse_value.simps(2) [where n = "pred_numeral k", unfolded numeral_eq_Suc [symmetric]] for k

lemmas parse_elements_numeral =
  parse_elements.simps(2) [where n = "pred_numeral k", unfolded numeral_eq_Suc [symmetric]] for k

lemmas parse_members_numeral =
  parse_members.simps(2) [where n = "pred_numeral k", unfolded numeral_eq_Suc [symmetric]] for k

lemmas settings_eval =
  host_of_def port_of_def debug_of_def passthrough_def get_prop_def member_def js_or_def
  coalesce_def ToBoolean_def env_value_def Number_of_def String_of_def str_or_def or_else_def
  truthy_str_def toLowerCase_def

lemmas number_eval =
  StringToNumber_def trim_def js_space_def radix_literal_def digits_val_def hex_val_def
  unsigned_decimal_def decimal_digits_def span_digits_def is_digit_def exponent_part_def
  negate_def NumberToString_def
  digits_of.simps digit_char_def strip_zeros_def

lemmas path_eval =
  path_join_def path_normalize_def normalizeString_def path_resolve_up2_def venv_python_def

lemmas json_eval =
  JSON_parse_def skip_ws_def json_space_def parse_number_def json_frac_def json_exp_def
  span_digits_def dec_val_def digits_val_def hex_val_def is_digit_def escape_char_def
  parse_value_numeral parse_elements_numeral parse_members_numeral
  parse_value.simps parse_elements.simps parse_members.simps

lemmas file_eval = isExec_def existsSync_def isFile_def python_file_def directory_def

lemma root_example: "path_resolve_up2 ''/srv/app/runner/bin'' = ''/srv/app''"
  by (simp add: path_eval)

lemma default_port: "NumberToString (Dec 7001 0) = ''7001''"
  by (simp add: number_eval)

lemma no_flag: "parseConfigArg [''node'', ''/srv/app/runner/bin/run.js''] = Inr (JObj [])"
  by (simp add: parseConfigArg_def)

section \<open>Properties of the JSON reader\<close>

text \<open>Every reader consumes text, and more fuel never changes what was read.\<close>

lemma skip_ws_length: "length (skip_ws s) \<le> length s"
  by (simp add: skip_ws_def length_dropWhile_le)

lemma parse_string_shorter: "parse_string acc cs = Some (s, r) \<Longrightarrow> length r < length cs"
proof (induction acc cs rule: parse_string.induct)
  case (1 acc)
  then show ?case by simp
next
  case (2 acc c cs)
  show ?case
  proof (cases "c = CHR 0x22")
    case True
    with "2.prems" show ?thesis by simp
  next
    case quote: False
    show ?thesis
    proof (cases "c = CHR 0x5C")
      case False
      with quote "2.prems" have "parse_string (acc @ [c]) cs = Some (s, r)"
        by (simp split: if_splits)
      with "2.IH"(3) [OF quote False] quote False "2.prems" show ?thesis
        by (simp split: if_splits)
    next
      case True
      with quote "2.prems" obtain e t where cs: "cs = e # t"
        by (cases cs) simp_all
      show ?thesis
      proof (cases "e = CHR ''u''")
        case u: True
        with True quote cs "2.prems" obtain v where
          v: "(if length t < 4 then None else digits_val 16 (take 4 t)) = Some v"
          and rec: "parse_string (acc @ utf8 v) (drop 4 t) = Some (s, r)"
          by (simp split: option.splits)
        from "2.IH"(1) [OF quote True cs u v rec] show ?thesis
          using cs by simp
      next
        case nu: False
        with True quote cs "2.prems" obtain x where
          x: "escape_char e = Some x" and rec: "parse_string (acc @ x) t = Some (s, r)"
          by (simp split: option.splits)
        from "2.IH"(2) [OF quote True cs nu x rec] show ?thesis
          using cs by simp
      qed
    qed
  qed
qed

lemma span_digits_length: "span_digits s = (ds, r) \<Longrightarrow> length ds + length r = length s"
proof -
  assume "span_digits s = (ds, r)"
  then have eq: "ds = takeWhile is_digit s" "r = dropWhile is_digit s"
    by (simp_all add: span_digits_def)
  have "length (takeWhile is_digit s @ dropWhile is_digit s) = length s"
    by (simp only: takeWhile_dropWhile_id)
  then show ?thesis unfolding eq by (simp only: length_append)
qed


lemma json_frac_length: "json_frac s = Some (fp, r) \<Longrightarrow> length r \<le> length s"
proof (cases s)
  case Nil
  then show "json_frac s = Some (fp, r) \<Longrightarrow> length r \<le> length s"
    by (simp add: json_frac_def)
next
  case (Cons c t)
  assume a: "json_frac s = Some (fp, r)"
  show "length r \<le> length s"
  proof (cases "c = CHR ''.''")
    case True
    obtain ds t' where sp: "span_digits t = (ds, t')" by (cases "span_digits t")
    with a Cons True have "r = t'" by (simp add: json_frac_def split: if_splits)
    with span_digits_length [OF sp] Cons show ?thesis by simp
  next
    case False
    with a Cons show ?thesis by (simp add: json_frac_def)
  qed
qed

lemma json_exp_length: "json_exp s = Some (ex, r) \<Longrightarrow> length r \<le> length s"
proof (cases s)
  case Nil
  then show "json_exp s = Some (ex, r) \<Longrightarrow> length r \<le> length s"
    by (simp add: json_exp_def)
next
  case (Cons c t)
  assume a: "json_exp s = Some (ex, r)"
  show "length r \<le> length s"
  proof (cases "c = CHR ''e'' \<or> c = CHR ''E''")
    case False
    with a Cons show ?thesis by (simp add: json_exp_def)
  next
    case True
    with a Cons obtain g u where t: "t = g # u" by (cases t) (simp_all add: json_exp_def)
    let ?d = "if g = CHR ''-'' \<or> g = CHR ''+'' then u else t"
    obtain ds t' where sp: "span_digits ?d = (ds, t')" by (cases "span_digits ?d")
    with a Cons True t have "r = t'" by (simp add: json_exp_def split: if_splits)
    moreover have "length ?d \<le> length t" using t by simp
    ultimately show ?thesis using span_digits_length [OF sp] Cons by simp
  qed
qed

lemma parse_number_shorter: "parse_number cs = Some (x, r) \<Longrightarrow> length r < length cs"
proof -
  assume a: "parse_number cs = Some (x, r)"
  let ?s = "case cs of [] \<Rightarrow> (False, cs) | c # t \<Rightarrow> if c = CHR ''-'' then (True, t) else (False, cs)"
  obtain neg r0 where s: "?s = (neg, r0)" by (cases ?s)
  then have r0: "length r0 \<le> length cs" by (auto split: list.splits if_splits)
  obtain ip r1 where sp: "span_digits r0 = (ip, r1)" by (cases "span_digits r0")
  from a s sp have ip: "ip \<noteq> []"
    by (auto simp: parse_number_def split: if_splits)
  from a s sp ip obtain fp r2 where f: "json_frac r1 = Some (fp, r2)"
    by (auto simp: parse_number_def split: if_splits option.splits)
  from a s sp ip f obtain ex where e: "json_exp r2 = Some (ex, r)"
    by (auto simp: parse_number_def split: if_splits option.splits)
  from ip have "0 < length ip" by simp
  with span_digits_length [OF sp] json_frac_length [OF f] json_exp_length [OF e] r0
  show ?thesis by arith
qed


lemma parse_value_mono_step:
  assumes m: "\<And>ms cs x. parse_members n ms cs = Some x \<Longrightarrow> parse_members (Suc n) ms cs = Some x"
      and e: "\<And>es cs x. parse_elements n es cs = Some x \<Longrightarrow> parse_elements (Suc n) es cs = Some x"
      and A: "parse_value (Suc n) cs = Some x"
  shows "parse_value (Suc (Suc n)) cs = Some x"
proof (cases cs)
  case Nil
  with A show ?thesis by (auto simp: parse_value.simps)
next
  case (Cons c r)
  show ?thesis
  proof (cases "c = CHR ''{''")
    case True
    show ?thesis
    proof (cases "skip_ws r \<noteq> [] \<and> hd (skip_ws r) = CHR ''}''")
      case True
      with A Cons \<open>c = CHR ''{''\<close> show ?thesis by (auto simp: parse_value.simps)
    next
      case False
      with A Cons \<open>c = CHR ''{''\<close> have "parse_members n [] (skip_ws r) = Some x"
        by (auto simp: parse_value.simps)
      from m [OF this] False Cons \<open>c = CHR ''{''\<close> show ?thesis
        by (auto simp: parse_value.simps)
    qed
  next
    case brace: False
    show ?thesis
    proof (cases "c = CHR ''[''")
      case True
      show ?thesis
      proof (cases "skip_ws r \<noteq> [] \<and> hd (skip_ws r) = CHR '']''")
        case True
        with A Cons brace \<open>c = CHR ''[''\<close> show ?thesis by (auto simp: parse_value.simps)
      next
        case False
        with A Cons brace \<open>c = CHR ''[''\<close> have "parse_elements n [] (skip_ws r) = Some x"
          by (auto simp: parse_value.simps)
        from e [OF this] False Cons brace \<open>c = CHR ''[''\<close> show ?thesis
          by (auto simp: parse_value.simps)
      qed
    next
      case False
      with A Cons brace show ?thesis by (auto simp: parse_value.simps)
    qed
  qed
qed


lemma parse_elements_mono_step:
  assumes v: "\<And>cs x. parse_value n cs = Some x \<Longrightarrow> parse_value (Suc n) cs = Some x"
      and e: "\<And>es cs x. parse_elements n es cs = Some x \<Longrightarrow> parse_elements (Suc n) es cs = Some x"
      and A: "parse_elements (Suc n) es cs = Some x"
  shows "parse_elements (Suc (Suc n)) es cs = Some x"
proof -
  from A obtain w r where pv: "parse_value n cs = Some (w, r)"
    by (cases "parse_value n cs") (auto simp: parse_elements.simps)
  from A pv obtain c r' where sk: "skip_ws r = c # r'"
    by (cases "skip_ws r") (auto simp: parse_elements.simps)
  note pv' = v [OF pv]
  show ?thesis
  proof (cases "c = CHR '',''")
    case True
    with A pv sk have "parse_elements n (es @ [w]) (skip_ws r') = Some x"
      by (simp add: parse_elements.simps)
    from e [OF this] True pv' sk show ?thesis
      by (simp add: parse_elements.simps(2) [of "Suc n"])
  next
    case False
    with A pv sk have "c = CHR '']''" "x = (JArr (es @ [w]), r')"
      by (auto simp: parse_elements.simps split: if_splits)
    with False pv' sk show ?thesis
      by (simp add: parse_elements.simps(2) [of "Suc n"])
  qed
qed

lemma parse_members_mono_step:
  assumes v: "\<And>cs x. parse_value n cs = Some x \<Longrightarrow> parse_value (Suc n) cs = Some x"
      and m: "\<And>ms cs x. parse_members n ms cs = Some x \<Longrightarrow> parse_members (Suc n) ms cs = Some x"
      and A: "parse_members (Suc n) ms cs = Some x"
  shows "parse_members (Suc (Suc n)) ms cs = Some x"
proof -
  from A obtain q r where cs: "cs = q # r" and q: "q = CHR 0x22"
    by (cases cs) (auto simp: parse_members.simps split: if_splits)
  from A cs q obtain k r1 where ps: "parse_string [] r = Some (k, r1)"
    by (cases "parse_string [] r") (auto simp: parse_members.simps)
  from A cs q ps obtain c r2 where sk: "skip_ws r1 = c # r2" and c: "c = CHR '':''"
    by (cases "skip_ws r1") (auto simp: parse_members.simps split: if_splits)
  from A cs q ps sk c obtain w r3 where pv: "parse_value n (skip_ws r2) = Some (w, r3)"
    by (cases "parse_value n (skip_ws r2)") (auto simp: parse_members.simps)
  from A cs q ps sk c pv obtain d r4 where sk3: "skip_ws r3 = d # r4"
    by (cases "skip_ws r3") (auto simp: parse_members.simps)
  note pv' = v [OF pv]
  show ?thesis
  proof (cases "d = CHR '',''")
    case True
    with A cs q ps sk c pv sk3 have "parse_members n (ms @ [(k, w)]) (skip_ws r4) = Some x"
      by (simp add: parse_members.simps)
    from m [OF this] True cs q ps sk c pv' sk3 show ?thesis
      by (simp add: parse_members.simps(2) [of "Suc n"])
  next
    case False
    with A cs q ps sk c pv sk3 have "d = CHR ''}''" "x = (JObj (ms @ [(k, w)]), r4)"
      by (auto simp: parse_members.simps split: if_splits)
    with False cs q ps sk c pv' sk3 show ?thesis
      by (simp add: parse_members.simps(2) [of "Suc n"])
  qed
qed

lemma parse_fuel_Suc:
  "(parse_value n cs = Some x \<longrightarrow> parse_value (Suc n) cs = Some x)
   \<and> (parse_elements n es cs = Some y \<longrightarrow> parse_elements (Suc n) es cs = Some y)
   \<and> (parse_members n ms cs = Some z \<longrightarrow> parse_members (Suc n) ms cs = Some z)"
proof (induction n arbitrary: cs es ms x y z)
  case 0
  show ?case by (simp add: parse_value.simps parse_elements.simps parse_members.simps)
next
  case (Suc n)
  have v: "parse_value n cs = Some x \<Longrightarrow> parse_value (Suc n) cs = Some x" for cs x
    using Suc by blast
  have e: "parse_elements n es cs = Some x \<Longrightarrow> parse_elements (Suc n) es cs = Some x" for es cs x
    using Suc by blast
  have m: "parse_members n ms cs = Some x \<Longrightarrow> parse_members (Suc n) ms cs = Some x" for ms cs x
    using Suc by blast
  show ?case
    using parse_value_mono_step [OF m e] parse_elements_mono_step [OF v e]
          parse_members_mono_step [OF v m]
    by blast
qed

lemma parse_value_mono: "parse_value n cs = Some x \<Longrightarrow> n \<le> k \<Longrightarrow> parse_value k cs = Some x"
  by (induction k) (auto simp: le_Suc_eq dest: parse_fuel_Suc [THEN conjunct1, rule_format])

lemma parse_elements_mono:
  "parse_elements n es cs = Some x \<Longrightarrow> n \<le> k \<Longrightarrow> parse_elements k es cs = Some x"
  by (induction k)
     (auto simp: le_Suc_eq dest: parse_fuel_Suc [THEN conjunct2, THEN conjunct1, rule_format])

lemma parse_members_mono:
  "parse_members n ms cs = Some x \<Longrightarrow> n \<le> k \<Longrightarrow> parse_members k ms cs = Some x"
  by (induction k)
     (auto simp: le_Suc_eq dest: parse_fuel_Suc [THEN conjunct2, THEN conjunct2, rule_format])

lemma literal_shorter: "take k cs = lit \<Longrightarrow> length lit = k \<Longrightarrow> 0 < k \<Longrightarrow> r = drop k cs
    \<Longrightarrow> length r < length cs"
  by (cases "k \<le> length cs") auto

lemma parse_value_bound_step:
  assumes E: "\<And>es cs v r. parse_elements n es cs = Some (v, r)
                \<Longrightarrow> length r < length cs \<and> parse_elements (Suc (2 * length cs)) es cs = Some (v, r)"
      and M: "\<And>ms cs v r. parse_members n ms cs = Some (v, r)
                \<Longrightarrow> length r < length cs \<and> parse_members (2 * length cs) ms cs = Some (v, r)"
      and A: "parse_value (Suc n) cs = Some (v, r)"
  shows "length r < length cs \<and> parse_value (2 * length cs) cs = Some (v, r)"
proof -
  from A obtain c r0 where cs: "cs = c # r0"
    by (cases cs) (auto simp: parse_value.simps)
  let ?k = "Suc (2 * length r0)"
  have fuel: "2 * length cs = Suc ?k" by (simp add: cs)
  have ws: "length (skip_ws r0) \<le> length r0" by (rule skip_ws_length)
  show ?thesis
  proof (cases "c = CHR ''{''")
    case True
    show ?thesis
    proof (cases "skip_ws r0 \<noteq> [] \<and> hd (skip_ws r0) = CHR ''}''")
      case True
      with A cs \<open>c = CHR ''{''\<close> have "v = JObj []" "r = tl (skip_ws r0)"
        by (auto simp: parse_value.simps)
      with True cs \<open>c = CHR ''{''\<close> ws show ?thesis
        by (auto simp: fuel parse_value.simps)
    next
      case False
      with A cs \<open>c = CHR ''{''\<close> have "parse_members n [] (skip_ws r0) = Some (v, r)"
        by (auto simp: parse_value.simps)
      from M [OF this] have short: "length r < length (skip_ws r0)"
        and enough: "parse_members (2 * length (skip_ws r0)) [] (skip_ws r0) = Some (v, r)"
        by simp_all
      have "parse_members ?k [] (skip_ws r0) = Some (v, r)"
        by (rule parse_members_mono [OF enough]) (use ws in simp)
      with False cs \<open>c = CHR ''{''\<close> short ws show ?thesis
        by (auto simp: fuel parse_value.simps)
    qed
  next
    case brace: False
    show ?thesis
    proof (cases "c = CHR ''[''")
      case True
      show ?thesis
      proof (cases "skip_ws r0 \<noteq> [] \<and> hd (skip_ws r0) = CHR '']''")
        case True
        with A cs brace \<open>c = CHR ''[''\<close> have "v = JArr []" "r = tl (skip_ws r0)"
          by (auto simp: parse_value.simps)
        with True cs brace \<open>c = CHR ''[''\<close> ws show ?thesis
          by (auto simp: fuel parse_value.simps)
      next
        case False
        with A cs brace \<open>c = CHR ''[''\<close> have "parse_elements n [] (skip_ws r0) = Some (v, r)"
          by (auto simp: parse_value.simps)
        from E [OF this] have short: "length r < length (skip_ws r0)"
          and enough: "parse_elements (Suc (2 * length (skip_ws r0))) [] (skip_ws r0) = Some (v, r)"
          by simp_all
        have "parse_elements ?k [] (skip_ws r0) = Some (v, r)"
          by (rule parse_elements_mono [OF enough]) (use ws in simp)
        with False cs brace \<open>c = CHR ''[''\<close> short ws show ?thesis
          by (auto simp: fuel parse_value.simps)
      qed
    next
      case False
      with brace cs have same: "parse_value (Suc ?k) cs = parse_value (Suc n) cs"
        by (simp add: parse_value.simps)
      have "length r < length cs"
      proof (cases "c = CHR 0x22")
        case True
        with A brace False cs obtain s where "parse_string [] r0 = Some (s, r)"
          by (cases "parse_string [] r0") (auto simp: parse_value.simps)
        from parse_string_shorter [OF this] cs show ?thesis by simp
      next
        case quote: False
        from A brace False quote cs
        consider "take 4 cs = ''true''" "r = drop 4 cs"
          | "take 5 cs = ''false''" "r = drop 5 cs"
          | "take 4 cs = ''null''" "r = drop 4 cs"
          | x where "parse_number cs = Some (x, r)"
          by (cases "parse_number cs")
             (auto simp: parse_value.simps simp del: take_Suc_Cons drop_Suc_Cons split: if_splits)
        then show ?thesis
          by cases (auto dest: literal_shorter parse_number_shorter)
      qed
      with same A show ?thesis by (simp add: fuel)
    qed
  qed
qed


lemma parse_elements_bound_step:
  assumes V: "\<And>cs v r. parse_value n cs = Some (v, r)
                \<Longrightarrow> length r < length cs \<and> parse_value (2 * length cs) cs = Some (v, r)"
      and E: "\<And>es cs v r. parse_elements n es cs = Some (v, r)
                \<Longrightarrow> length r < length cs \<and> parse_elements (Suc (2 * length cs)) es cs = Some (v, r)"
      and A: "parse_elements (Suc n) es cs = Some (v, r)"
  shows "length r < length cs \<and> parse_elements (Suc (2 * length cs)) es cs = Some (v, r)"
proof -
  from A obtain w r1 where pv: "parse_value n cs = Some (w, r1)"
    by (cases "parse_value n cs") (auto simp: parse_elements.simps)
  from V [OF pv] have s1: "length r1 < length cs"
    and pv2: "parse_value (2 * length cs) cs = Some (w, r1)"
    by simp_all
  from A pv obtain c r' where sk: "skip_ws r1 = c # r'"
    by (cases "skip_ws r1") (auto simp: parse_elements.simps)
  have s2: "Suc (length r') \<le> length r1"
    using skip_ws_length [of r1] sk by simp
  show ?thesis
  proof (cases "c = CHR '',''")
    case True
    with A pv sk have rec: "parse_elements n (es @ [w]) (skip_ws r') = Some (v, r)"
      by (simp add: parse_elements.simps)
    from E [OF rec] have s3: "length r < length (skip_ws r')"
      and enough: "parse_elements (Suc (2 * length (skip_ws r'))) (es @ [w]) (skip_ws r') = Some (v, r)"
      by simp_all
    have s4: "length (skip_ws r') \<le> length r'" by (rule skip_ws_length)
    have "parse_elements (2 * length cs) (es @ [w]) (skip_ws r') = Some (v, r)"
      by (rule parse_elements_mono [OF enough]) (use s1 s2 s4 in arith)
    with True pv2 sk have "parse_elements (Suc (2 * length cs)) es cs = Some (v, r)"
      by (simp add: parse_elements.simps)
    moreover have "length r < length cs" using s1 s2 s3 s4 by arith
    ultimately show ?thesis by simp
  next
    case False
    with A pv sk have "c = CHR '']''" and res: "v = JArr (es @ [w])" "r = r'"
      by (auto simp: parse_elements.simps split: if_splits)
    with False pv2 sk have "parse_elements (Suc (2 * length cs)) es cs = Some (v, r)"
      by (simp add: parse_elements.simps)
    moreover have "length r < length cs" using s1 s2 res by arith
    ultimately show ?thesis by simp
  qed
qed

lemma parse_members_bound_step:
  assumes V: "\<And>cs v r. parse_value n cs = Some (v, r)
                \<Longrightarrow> length r < length cs \<and> parse_value (2 * length cs) cs = Some (v, r)"
      and M: "\<And>ms cs v r. parse_members n ms cs = Some (v, r)
                \<Longrightarrow> length r < length cs \<and> parse_members (2 * length cs) ms cs = Some (v, r)"
      and A: "parse_members (Suc n) ms cs = Some (v, r)"
  shows "length r < length cs \<and> parse_members (2 * length cs) ms cs = Some (v, r)"
proof -
  from A obtain q r0 where cs: "cs = q # r0" and q: "q = CHR 0x22"
    by (cases cs) (auto simp: parse_members.simps split: if_splits)
  let ?k = "Suc (2 * length r0)"
  have fuel: "2 * length cs = Suc ?k" by (simp add: cs)
  from A cs q obtain key r1 where ps: "parse_string [] r0 = Some (key, r1)"
    by (cases "parse_string [] r0") (auto simp: parse_members.simps)
  note s1 = parse_string_shorter [OF ps]
  from A cs q ps obtain c r2 where sk: "skip_ws r1 = c # r2" and c: "c = CHR '':''"
    by (cases "skip_ws r1") (auto simp: parse_members.simps split: if_splits)
  have s2: "Suc (length r2) \<le> length r1"
    using skip_ws_length [of r1] sk by simp
  from A cs q ps sk c obtain w r3 where pv: "parse_value n (skip_ws r2) = Some (w, r3)"
    by (cases "parse_value n (skip_ws r2)") (auto simp: parse_members.simps)
  from V [OF pv] have s3: "length r3 < length (skip_ws r2)"
    and pv2: "parse_value (2 * length (skip_ws r2)) (skip_ws r2) = Some (w, r3)"
    by simp_all
  have s4: "length (skip_ws r2) \<le> length r2" by (rule skip_ws_length)
  have pv3: "parse_value ?k (skip_ws r2) = Some (w, r3)"
    by (rule parse_value_mono [OF pv2]) (use s1 s2 s4 in arith)
  from A cs q ps sk c pv obtain d r4 where sk3: "skip_ws r3 = d # r4"
    by (cases "skip_ws r3") (auto simp: parse_members.simps)
  have s5: "Suc (length r4) \<le> length r3"
    using skip_ws_length [of r3] sk3 by simp
  show ?thesis
  proof (cases "d = CHR '',''")
    case True
    with A cs q ps sk c pv sk3 have rec: "parse_members n (ms @ [(key, w)]) (skip_ws r4) = Some (v, r)"
      by (simp add: parse_members.simps)
    from M [OF rec] have s6: "length r < length (skip_ws r4)"
      and enough: "parse_members (2 * length (skip_ws r4)) (ms @ [(key, w)]) (skip_ws r4) = Some (v, r)"
      by simp_all
    have s7: "length (skip_ws r4) \<le> length r4" by (rule skip_ws_length)
    have "parse_members ?k (ms @ [(key, w)]) (skip_ws r4) = Some (v, r)"
      by (rule parse_members_mono [OF enough]) (use s1 s2 s3 s4 s5 s7 in arith)
    with True cs q ps sk c pv3 sk3 have "parse_members (Suc ?k) ms cs = Some (v, r)"
      by (simp add: parse_members.simps)
    moreover have "length r < length cs" using cs s1 s2 s3 s4 s5 s6 s7 by simp
    ultimately show ?thesis by (simp only: fuel)
  next
    case False
    with A cs q ps sk c pv sk3 have "d = CHR ''}''" and res: "v = JObj (ms @ [(key, w)])" "r = r4"
      by (auto simp: parse_members.simps split: if_splits)
    with False cs q ps sk c pv3 sk3 have "parse_members (Suc ?k) ms cs = Some (v, r)"
      by (simp add: parse_members.simps)
    moreover have "length r < length cs" using cs s1 s2 s3 s4 s5 res by simp
    ultimately show ?thesis by (simp only: fuel)
  qed
qed

lemma parse_fuel_bound:
  "(parse_value n cs = Some (v, r)
      \<longrightarrow> length r < length cs \<and> parse_value (2 * length cs) cs = Some (v, r))
   \<and> (parse_elements n es cs = Some (v, r)
      \<longrightarrow> length r < length cs \<and> parse_elements (Suc (2 * length cs)) es cs = Some (v, r))
   \<and> (parse_members n ms cs = Some (v, r)
      \<longrightarrow> length r < length cs \<and> parse_members (2 * length cs) ms cs = Some (v, r))"
proof (induction n arbitrary: cs es ms v r)
  case 0
  show ?case by (simp add: parse_value.simps parse_elements.simps parse_members.simps)
next
  case (Suc n)
  have V: "parse_value n cs = Some (v, r)
            \<Longrightarrow> length r < length cs \<and> parse_value (2 * length cs) cs = Some (v, r)" for cs v r
    using Suc by blast
  have E: "parse_elements n es cs = Some (v, r)
            \<Longrightarrow> length r < length cs \<and> parse_elements (Suc (2 * length cs)) es cs = Some (v, r)"
    for es cs v r
    using Suc by blast
  have M: "parse_members n ms cs = Some (v, r)
            \<Longrightarrow> length r < length cs \<and> parse_members (2 * length cs) ms cs = Some (v, r)"
    for ms cs v r
    using Suc by blast
  show ?case
    using parse_value_bound_step [OF E M] parse_elements_bound_step [OF V E]
          parse_members_bound_step [OF V M]
    by blast
qed

text \<open>Fuel: whatever any amount of fuel reads, the fuel of \<open>JSON_parse\<close> reads.\<close>

lemma JSON_parse_fuel:
  assumes "parse_value n (skip_ws s) = Some (v, r)"
  shows "parse_value (2 * length s + 2) (skip_ws s) = Some (v, r)"
proof -
  from parse_fuel_bound [of n "skip_ws s" v r] assms
  have "parse_value (2 * length (skip_ws s)) (skip_ws s) = Some (v, r)" by blast
  then show ?thesis
    by (rule parse_value_mono) (use skip_ws_length [of s] in simp)
qed

section \<open>Properties of the resolution\<close>

lemma isExec_truthy: "isExec fs p \<Longrightarrow> truthy_str p"
  by (auto simp: isExec_def truthy_str_def split: option.splits)

lemma isExec_None [simp]: "\<not> isExec fs None"
  by (simp add: isExec_def)

text \<open>The execute permission plays no part in \<open>isExec\<close>.\<close>

lemma isExec_ignores_permission:
  "isExec (fs(p \<mapsto> \<lparr>ftype = t, executable = x\<rparr>)) q = isExec (fs(p \<mapsto> \<lparr>ftype = t, executable = y\<rparr>)) q"
  by (simp add: isExec_def existsSync_def isFile_def split: option.splits)


lemma find_filter_truthy:
  "(case List.find (isExec fs) (filter truthy_str cs) of None \<Rightarrow> None | Some p \<Rightarrow> p)
     = first_valid (isExec fs) cs"
  by (induction cs) (auto dest: isExec_truthy)

lemma first_valid_truthy: "or_else (first_valid (isExec fs) cs) None = first_valid (isExec fs) cs"
  by (induction cs) (auto simp: or_else_def truthy_str_def dest: isExec_truthy)

lemma tries_search_order: "tries env = filter truthy_str (tl (search_order env))"
  by (simp add: tries_def search_order_def)

text \<open>
  The resolution the script runs: a non-empty override is taken as it is; only without
  one are the other five candidates searched.
\<close>

lemma PY_BIN_search:
  "PY_BIN env fs =
     (if truthy_str (env ''PYTHON_BIN'') then env ''PYTHON_BIN''
      else first_valid (isExec fs) (tl (search_order env)))"
proof (cases "truthy_str (env ''PYTHON_BIN'')")
  case True
  then show ?thesis by (simp add: PY_BIN_def or_else_def)
next
  case False
  then have "PY_BIN env fs
      = or_else (case List.find (isExec fs) (filter truthy_str (tl (search_order env))) of
                   None \<Rightarrow> None | Some p \<Rightarrow> p) None"
    by (simp add: PY_BIN_def or_else_def tries_search_order truthy_str_def)
  also have "\<dots> = first_valid (isExec fs) (tl (search_order env))"
    by (simp only: find_filter_truthy first_valid_truthy)
  finally show ?thesis using False by simp
qed



section \<open>Properties of the script\<close>













section \<open>Properties of the supervision loop\<close>

lemma supervise_signals: "supervise (map Received sigs @ evs) = map ChildKill sigs @ supervise evs"
  by (induction sigs) (simp_all add: on_signal_def)

lemma supervise_exits_iff:
  "(\<exists>c. ProcessExit c \<in> set (supervise evs)) = (\<exists>code. ChildExit code \<in> set evs)"
proof (induction evs rule: supervise.induct)
  case 1
  show ?case by simp
next
  case (2 sig evs)
  then show ?case by (auto simp: on_signal_def)
next
  case (3 code evs)
  show ?case by (auto simp: on_exit_def)
qed

section \<open>Example configurations\<close>




lemma config_empty_value:
  "parseConfigArg [''node'', ''/srv/app/runner/bin/run.js'', ''--config'', ''''] = Inr (JObj [])"
  by (simp add: parseConfigArg_def)

lemma parse_bad: \<open>JSON_parse ''{bad'' = Inl SyntaxError\<close>
  by (simp add: json_eval)

lemma parse_empty: \<open>JSON_parse [] = Inl SyntaxError\<close>
  by (simp add: json_eval)

section \<open>The claims\<close>

text \<open>
  C1. The resolution the script runs is not the ordered search over all six candidates:
  a non-empty override is selected without any check. With the override naming a missing
  file and the system interpreter installed, the script selects the missing file, while
  the first candidate that is an executable regular file is \<^verbatim>\<open>/usr/bin/python3\<close>.
\<close>

theorem override_taken_unchecked:
  "PY_BIN (map_of [(''PYTHON_BIN'', ''/no/such/python'')]) (map_of [(''/usr/bin/python3'', python_file)])
     = Some ''/no/such/python''
   \<and> first_valid (executable_file (map_of [(''/usr/bin/python3'', python_file)]))
         (search_order (map_of [(''PYTHON_BIN'', ''/no/such/python'')]))
     = Some ''/usr/bin/python3''"
  by (simp add: PY_BIN_search truthy_str_def search_order_def executable_file_def venv_python_def
        python_file_def)

text \<open>
  C2. A path can be selected and spawned without having passed \<open>isExec\<close>: with the override
  naming a directory, the script spawns that directory.
\<close>

theorem unverified_path_spawned:
  "launcher (example_world [] [(''PYTHON_BIN'', ''/usr/bin'')]
                [(''/usr/bin'', directory), (''/usr/bin/python3'', python_file)])
     = start_child ''/usr/bin'' ''127.0.0.1'' ''7001''
         (child_environment (map_of [(''PYTHON_BIN'', ''/usr/bin'')]) ''127.0.0.1'' ''7001'' ''false'' ''/srv/app'')
         ''/srv/app''
   \<and> isExec (map_of [(''/usr/bin'', directory), (''/usr/bin/python3'', python_file)]) (Some ''/usr/bin'') = False"
  by (simp add: launcher_def launch_def example_world_def no_flag settings_eval default_port
        root_example PY_BIN_search file_eval Let_def)







text \<open>
  C5, as stated, fails for the empty string: it is not valid JSON, yet the script treats
  \<^verbatim>\<open>--config ""\<close> as no configuration and spawns the child.
\<close>

theorem empty_value_is_not_an_error:
  "JSON_parse [] = Inl SyntaxError
   \<and> launcher (example_world [''--config'', ''''] [(''PYTHON_BIN'', ''/usr/bin/python3'')]
                 [(''/usr/bin/python3'', python_file)])
     = start_child ''/usr/bin/python3'' ''127.0.0.1'' ''7001''
         (child_environment (map_of [(''PYTHON_BIN'', ''/usr/bin/python3'')]) ''127.0.0.1'' ''7001'' ''false'' ''/srv/app'')
         ''/srv/app''"
  by (simp add: parse_empty launcher_def launch_def example_world_def config_empty_value
        settings_eval default_port root_example PY_BIN_search Let_def)

text \<open>
  C5, amended. When the \<^verbatim>\<open>--config\<close> the script finds is followed by a non-empty value
  that is not valid JSON, the whole run is the diagnostic line and the exit with status
  1: no child is spawned, whatever events follow.
\<close>

theorem malformed_config_is_fatal:
  assumes "indexOf (process_argv w) ''--config'' = Some i"
      and "Suc i < length (process_argv w)"
      and "process_argv w ! Suc i \<noteq> []"
      and "JSON_parse (process_argv w ! Suc i) = Inl e"
  shows "run w evs = [ConsoleError ''[mcp-service-registry] Invalid --config JSON:'', ProcessExit 1]"
  using assms by (simp add: run_def launcher_def parseConfigArg_def)

theorem malformed_config_is_fatal_witness:
  "run (example_world [''--config'', ''{bad''] [(''PYTHON_BIN'', ''/usr/bin/python3'')]
          [(''/usr/bin/python3'', python_file)]) [Received SIGINT, ChildExit (Some 0)]
     = [ConsoleError ''[mcp-service-registry] Invalid --config JSON:'', ProcessExit 1]"
proof -
  let ?w = "example_world [''--config'', ''{bad''] [(''PYTHON_BIN'', ''/usr/bin/python3'')]
              [(''/usr/bin/python3'', python_file)]"
  have 1: "indexOf (process_argv ?w) ''--config'' = Some 2" by (simp add: example_world_def)
  have 2: "Suc 2 < length (process_argv ?w)" by (simp add: example_world_def)
  have 3: "process_argv ?w ! Suc 2 \<noteq> []" by (simp add: example_world_def)
  have 4: "JSON_parse (process_argv ?w ! Suc 2) = Inl SyntaxError"
    using parse_bad by (simp add: example_world_def)
  show ?thesis by (rule malformed_config_is_fatal [OF 1 2 3 4])
qed

text \<open>
  C6. With no valid candidate at all the script can still spawn: the override names a
  missing file, nothing else exists, and the script starts the missing file instead of
  exiting with status 127.
\<close>

theorem no_candidate_still_spawns:
  "first_valid (isExec (map_of [])) (search_order (map_of [(''PYTHON_BIN'', ''/no/such/python'')])) = None
   \<and> launcher (example_world [] [(''PYTHON_BIN'', ''/no/such/python'')] [])
     = start_child ''/no/such/python'' ''127.0.0.1'' ''7001''
         (child_environment (map_of [(''PYTHON_BIN'', ''/no/such/python'')]) ''127.0.0.1'' ''7001'' ''false'' ''/srv/app'')
         ''/srv/app''"
  by (simp add: launcher_def launch_def example_world_def no_flag settings_eval default_port
        root_example PY_BIN_search file_eval search_order_def venv_python_def Let_def)

text \<open>
  C7. When the child exits with a status code the launcher exits with the same code, and
  when a signal ended the child (no code) the launcher exits with status 0; this holds
  whatever signals the launcher relayed before, and nothing is done after the exit.
\<close>

theorem child_exit_status_propagated:
  "supervise (map Received sigs @ ChildExit (Some c) # evs) = map ChildKill sigs @ [ProcessExit c]
   \<and> supervise (map Received sigs @ ChildExit None # evs) = map ChildKill sigs @ [ProcessExit 0]"
  by (simp add: supervise_signals on_exit_def nullish_def)

text \<open>
  C8. While the child runs, a received interrupt or terminate signal has exactly one
  effect, the same signal sent to the child: the rest of the run is the run without that
  signal. A run of signals alone produces the forwarded signals and nothing else (no
  diagnostic, no exit), and the launcher exits in a run exactly when the child's exit
  event is in it.
\<close>

theorem signals_forwarded_exit_deferred:
  "supervise (Received sig # evs) = ChildKill sig # supervise evs
   \<and> supervise (map Received sigs) = map ChildKill sigs
   \<and> (\<exists>c. ProcessExit c \<in> set (supervise evs)) = (\<exists>code. ChildExit code \<in> set evs)"
proof -
  have "supervise (map Received sigs @ []) = map ChildKill sigs @ supervise []"
    by (rule supervise_signals)
  then show ?thesis
    using supervise_exits_iff [of evs] by (simp add: on_signal_def)
qed






end
